theory Spec2Isabelle
  imports Main "HOL-Library.Word"
begin

section \<open>Fatal checks\<close>

text \<open>
  \<^verbatim>\<open>CHECK\<close>, \<^verbatim>\<open>CHECK_LT\<close>, \<^verbatim>\<open>ASSERT\<close> and \<^verbatim>\<open>SWITCH_ENUM_OR_DIE\<close> end the process when they
  fail, and \<^verbatim>\<open>std::vector::at\<close> throws \<^verbatim>\<open>std::out_of_range\<close>. A function that can do either
  returns \<open>error + 'a\<close>, with \<open>Inl\<close> for the abort.
\<close>

datatype error = CheckFailed | OutOfRange | UnexpectedEnum

section \<open>Gamma letters (lib/gamma.h)\<close>







section \<open>Packed vectors\<close>




section \<open>Linear expressions\<close>

text \<open>
  Modelled from the spec: the class template \<^verbatim>\<open>Linear<Param>\<close> (lib/linear.h) is not among
  the sources. Section 3 of the specification: an Expression is "a mapping from PackedKey
  to a nonzero integer coefficient (zero-coefficient entries are never persisted);
  insertion order is irrelevant; equality is key-wise coefficient equality after
  normalization". Section 4.3: addition and multiplication by an integer are key-wise
  ("0 multiply removes the key"), \<^verbatim>\<open>filtered(predicate)\<close> keeps "only terms whose decoded
  object satisfies predicate", and \<^verbatim>\<open>mapped_expanding(f)\<close> applies to every term an \<open>f\<close> that
  "may map one term to a linear combination", summing like keys.

  The mapping is a list of entries (key, coefficient).
\<close>

type_synonym 'k linear = "('k \<times> int) list"

text \<open>
  Modelled from the spec: the invariant of \<^verbatim>\<open>Linear\<close> (lib/linear.h). A mapping has no key
  twice, and by section 3 "zero-coefficient entries are never persisted".
\<close>

definition wf_linear :: "'k linear \<Rightarrow> bool" where
  "wf_linear e = (distinct (map fst e) \<and> list_all (\<lambda>p. snd p \<noteq> 0) e)"

text \<open>
  Modelled from the spec: reading a coefficient of a \<^verbatim>\<open>Linear\<close> (lib/linear.h); a key that
  is not persisted has coefficient zero.
\<close>

definition coeff :: "'k linear \<Rightarrow> 'k \<Rightarrow> int" where
  "coeff e k = (case map_of e k of None \<Rightarrow> 0 | Some c \<Rightarrow> c)"

text \<open>
  Modelled from the spec: \<^verbatim>\<open>Linear::add_to_key\<close> (lib/linear.h) adds to the coefficient of
  one key, and the entry goes when the sum is zero (section 3).
\<close>

definition add_to_key :: "'k \<Rightarrow> int \<Rightarrow> 'k linear \<Rightarrow> 'k linear" where
  "add_to_key k c e =
     (let v = coeff e k + c;
          others = filter (\<lambda>p. fst p \<noteq> k) e
      in if v = 0 then others else (k, v) # others)"


text \<open>
  Modelled from the spec: the sum of two \<^verbatim>\<open>Linear\<close>s (lib/linear.h), "key-wise" by section
  4.3: every entry of the second is added to its key in the first.
\<close>

definition add_all :: "('k \<times> int) list \<Rightarrow> 'k linear \<Rightarrow> 'k linear" where
  "add_all entries e = fold (\<lambda>p acc. add_to_key (fst p) (snd p) acc) entries e"

text \<open>Modelled from the spec: \<^verbatim>\<open>operator+\<close> of \<^verbatim>\<open>Linear\<close> (lib/linear.h), as above.\<close>

definition linear_plus :: "'k linear \<Rightarrow> 'k linear \<Rightarrow> 'k linear" where
  "linear_plus e1 e2 = add_all e2 e1"

text \<open>
  Modelled from the spec: the product of an integer and a \<^verbatim>\<open>Linear\<close> (lib/linear.h), key-wise;
  by section 4.3 "0 multiply removes the key".
\<close>

definition linear_scale :: "int \<Rightarrow> 'k linear \<Rightarrow> 'k linear" where
  "linear_scale n e = filter (\<lambda>p. snd p \<noteq> 0) (map (\<lambda>p. (fst p, n * snd p)) e)"

text \<open>
  Modelled from the spec: \<^verbatim>\<open>Linear::filtered\<close> (lib/linear.h); by section 4.3 it keeps "only
  terms whose decoded object satisfies predicate", so it takes the decoder of the keys.
\<close>

definition filtered :: "('k \<Rightarrow> 'o) \<Rightarrow> ('o \<Rightarrow> bool) \<Rightarrow> 'k linear \<Rightarrow> 'k linear" where
  "filtered key_to_object pred e = filter (\<lambda>p. pred (key_to_object (fst p))) e"



text \<open>
  Modelled from the spec: \<^verbatim>\<open>operator==\<close> of \<^verbatim>\<open>Linear\<close> (lib/linear.h); by section 3
  "equality is key-wise coefficient equality".
\<close>

definition linear_eq :: "'k linear \<Rightarrow> 'k linear \<Rightarrow> bool" where
  "linear_eq e1 e2 = (\<forall>k \<in> set (map fst e1) \<union> set (map fst e2). coeff e1 k = coeff e2 k)"


section \<open>Binary coproduct\<close>

text \<open>
  Modelled from the spec: \<^verbatim>\<open>coproduct\<close> (lib/coalgebra.h) is not among the sources. Section
  4.4 of the specification: "given two Expressions over the same letter alphabet, produces
  the Co-Expression whose terms are all pairs (a,b) with a from A, b from B, coefficient
  coeff(a)*coeff(b)". A co-term is the list of its parts, here \<open>[a, b]\<close>.
\<close>

definition coproduct :: "'k linear \<Rightarrow> 'k linear \<Rightarrow> ('k list) linear" where
  "coproduct A B =
     fold (\<lambda>pa acc.
             fold (\<lambda>pb acc'. add_to_key [fst pa, fst pb] (snd pa * snd pb) acc') B acc)
          A []"

text \<open>
  The entries that the two loops of \<open>coproduct\<close> add, in the order in which they add them.
\<close>

definition coproduct_entries :: "'k linear \<Rightarrow> 'k linear \<Rightarrow> ('k list \<times> int) list" where
  "coproduct_entries A B =
     concat (map (\<lambda>pa. map (\<lambda>pb. ([fst pa, fst pb], snd pa * snd pb)) B) A)"

section \<open>Delta letters and their expressions (lib/delta.cpp)\<close>

text \<open>
  lib/x.h and lib/delta.h are not among the sources. What lib/delta.cpp reads of them is
  kept: the values of \<^verbatim>\<open>XForm\<close> that its switches list, an \<^verbatim>\<open>X\<close> with \<^verbatim>\<open>form()\<close> and \<^verbatim>\<open>idx()\<close>,
  and a \<^verbatim>\<open>Delta\<close> with \<^verbatim>\<open>a()\<close> and \<^verbatim>\<open>b()\<close>.
\<close>

datatype XForm = XForm_var | XForm_neg_var | XForm_sq_var | XForm_zero | XForm_infinity
  | XForm_undefined

datatype X = X (form: XForm) (idx: int)

datatype Delta = Delta (Delta_a: X) (Delta_b: X)

text \<open>
  The member functions and codecs declared in the absent headers are arguments of every
  function that calls them, gathered in one record, and a theorem holds for whatever they
  compute: the constructor \<^verbatim>\<open>Delta(X, X)\<close>, \<^verbatim>\<open>Delta::is_nil\<close>, \<^verbatim>\<open>Delta::operator<\<close>,
  \<^verbatim>\<open>X::negated\<close>, \<^verbatim>\<open>X::as_simple_var\<close>, and \<^verbatim>\<open>object_to_key\<close> and \<^verbatim>\<open>key_to_object\<close> of the
  parameter class of \<^verbatim>\<open>DeltaExpr\<close>. Those that may run a check return \<open>error + 'a\<close>.
\<close>

record 'k delta_h =
  Delta_ctor :: "X \<Rightarrow> X \<Rightarrow> error + Delta"
  Delta_is_nil :: "Delta \<Rightarrow> bool"
  Delta_less :: "Delta \<Rightarrow> Delta \<Rightarrow> bool"
  X_negated :: "X \<Rightarrow> error + X"
  X_as_simple_var :: "X \<Rightarrow> error + int"
  DeltaExpr_object_to_key :: "Delta list \<Rightarrow> 'k"
  DeltaExpr_key_to_object :: "'k \<Rightarrow> Delta list"







text \<open>
  \<^verbatim>\<open>sorted(term)\<close> is a sorted copy under \<^verbatim>\<open>Delta::operator<\<close>; \<^verbatim>\<open>absl::c_adjacent_find\<close> is
  \<^verbatim>\<open>std::adjacent_find\<close>, here returning the rest of the sequence from the first of two equal
  neighbours on, and the empty rest for \<^verbatim>\<open>end()\<close>.
\<close>

fun insert_sorted :: "('a \<Rightarrow> 'a \<Rightarrow> bool) \<Rightarrow> 'a \<Rightarrow> 'a list \<Rightarrow> 'a list" where
  "insert_sorted lt x [] = [x]"
| "insert_sorted lt x (y # ys) = (if lt y x then y # insert_sorted lt x ys else x # y # ys)"

definition sorted_copy :: "('a \<Rightarrow> 'a \<Rightarrow> bool) \<Rightarrow> 'a list \<Rightarrow> 'a list" where
  "sorted_copy lt xs = foldr (insert_sorted lt) xs []"

fun adjacent_find :: "'a list \<Rightarrow> 'a list" where
  "adjacent_find (x # y # xs) = (if x = y then x # y # xs else adjacent_find (y # xs))"
| "adjacent_find xs = []"

text \<open>
  \<^verbatim>\<open>
  DeltaExpr terms_with_unique_muptiples(const DeltaExpr& expr) {
    return expr.filtered([&](const std::vector<Delta>& term) {
      const auto term_sorted = sorted(term);
      return absl::c_adjacent_find(term_sorted) == term_sorted.end();
    });
  }
  \<close>
  and \<^verbatim>\<open>terms_with_nonunique_muptiples\<close>, the same with \<^verbatim>\<open>!=\<close>.
\<close>

definition terms_with_unique_muptiples :: "'k delta_h \<Rightarrow> 'k linear \<Rightarrow> 'k linear" where
  "terms_with_unique_muptiples h expr =
     filtered (DeltaExpr_key_to_object h)
       (\<lambda>term. let term_sorted = sorted_copy (Delta_less h) term
               in adjacent_find term_sorted = []) expr"

definition terms_with_nonunique_muptiples :: "'k delta_h \<Rightarrow> 'k linear \<Rightarrow> 'k linear" where
  "terms_with_nonunique_muptiples h expr =
     filtered (DeltaExpr_key_to_object h)
       (\<lambda>term. let term_sorted = sorted_copy (Delta_less h) term
               in adjacent_find term_sorted \<noteq> []) expr"




section \<open>Concrete letters for evaluation\<close>

text \<open>
  One instance of the record of absent operations, on which the functions above can be run:
  the constructor puts the point of smaller index first, a Delta of two equal points is nil,
  Deltas are ordered by the indices of their points, negation swaps \<^verbatim>\<open>var\<close> and \<^verbatim>\<open>neg_var\<close>,
  a simple variable is a point of form \<^verbatim>\<open>var\<close>, and a term is its own key.
\<close>

definition example_delta_h :: "(Delta list) delta_h" where
  "example_delta_h =
     \<lparr> Delta_ctor = (\<lambda>xa xb. Inr (if idx xb < idx xa then Delta xb xa else Delta xa xb)),
       Delta_is_nil = (\<lambda>d. Delta_a d = Delta_b d),
       Delta_less = (\<lambda>d e. idx (Delta_a d) < idx (Delta_a e)
                        \<or> (idx (Delta_a d) = idx (Delta_a e) \<and> idx (Delta_b d) < idx (Delta_b e))),
       X_negated = (\<lambda>x. case form x of
                            XForm_var \<Rightarrow> Inr (X XForm_neg_var (idx x))
                          | XForm_neg_var \<Rightarrow> Inr (X XForm_var (idx x))
                          | _ \<Rightarrow> Inl CheckFailed),
       X_as_simple_var = (\<lambda>x. if form x = XForm_var then Inr (idx x) else Inl CheckFailed),
       DeltaExpr_object_to_key = (\<lambda>obj. obj),
       DeltaExpr_key_to_object = (\<lambda>key. key) \<rparr>"

definition example_var :: "int \<Rightarrow> X" where
  "example_var i = X XForm_var i"

definition example_D :: "int \<Rightarrow> int \<Rightarrow> Delta" where
  "example_D i j = Delta (example_var i) (example_var j)"



section \<open>Coefficients of linear expressions\<close>

lemma coeff_Nil: "coeff [] k = 0"
  by (simp add: coeff_def)

lemma coeff_Cons: "coeff (p # e) k = (if k = fst p then snd p else coeff e k)"
  by (cases p) (simp add: coeff_def)

lemma coeff_notin_keys: "k \<notin> fst ` set e \<Longrightarrow> coeff e k = 0"
  by (induction e) (auto simp add: coeff_Nil coeff_Cons)

lemma coeff_filter_others:
  "coeff (filter (\<lambda>p. fst p \<noteq> k) e) k' = (if k' = k then 0 else coeff e k')"
  by (induction e) (auto simp add: coeff_Nil coeff_Cons)

lemma coeff_add_to_key:
  "coeff (add_to_key k c e) k' = coeff e k' + (if k' = k then c else 0)"
  by (simp add: add_to_key_def Let_def coeff_Cons coeff_filter_others)

lemma distinct_add_to_key:
  "distinct (map fst e) \<Longrightarrow> distinct (map fst (add_to_key k c e))"
  by (auto simp add: add_to_key_def Let_def distinct_map_filter)

lemma coeff_add_all:
  "coeff (add_all entries e) k = coeff e k + sum_list (map snd (filter (\<lambda>p. fst p = k) entries))"
  unfolding add_all_def
  by (induction entries arbitrary: e) (auto simp add: coeff_add_to_key)

lemma distinct_add_all:
  "distinct (map fst e) \<Longrightarrow> distinct (map fst (add_all entries e))"
  unfolding add_all_def
  by (induction entries arbitrary: e) (auto simp add: distinct_add_to_key)

lemma total_eq_coeff:
  "distinct (map fst e) \<Longrightarrow> sum_list (map snd (filter (\<lambda>p. fst p = k) e)) = coeff e k"
  by (induction e) (auto simp add: coeff_Nil coeff_Cons coeff_notin_keys)

lemma coeff_linear_plus:
  "distinct (map fst e2) \<Longrightarrow> coeff (linear_plus e1 e2) k = coeff e1 k + coeff e2 k"
  by (simp add: linear_plus_def coeff_add_all total_eq_coeff)

lemma distinct_linear_plus:
  "distinct (map fst e1) \<Longrightarrow> distinct (map fst (linear_plus e1 e2))"
  by (simp add: linear_plus_def distinct_add_all)

lemma keys_linear_scale: "fst ` set (linear_scale n e) \<subseteq> fst ` set e"
  by (force simp add: linear_scale_def)

lemma distinct_linear_scale:
  "distinct (map fst e) \<Longrightarrow> distinct (map fst (linear_scale n e))"
proof (induction e)
  case Nil
  then show ?case by (simp add: linear_scale_def)
next
  case (Cons p e)
  have sub: "fst ` set (linear_scale n e) \<subseteq> fst ` set e" by (rule keys_linear_scale)
  from Cons have "distinct (map fst (linear_scale n e))" and "fst p \<notin> fst ` set e" by auto
  with sub show ?case
    by (auto simp add: linear_scale_def)
qed

lemma coeff_linear_scale:
  "distinct (map fst e) \<Longrightarrow> coeff (linear_scale n e) k = n * coeff e k"
proof (induction e)
  case Nil
  then show ?case by (simp add: linear_scale_def coeff_Nil)
next
  case (Cons p e)
  have sub: "fst ` set (linear_scale n e) \<subseteq> fst ` set e" by (rule keys_linear_scale)
  from Cons.prems have notin: "fst p \<notin> fst ` set e" and d: "distinct (map fst e)" by auto
  have tail: "linear_scale n (p # e) =
      (if n * snd p \<noteq> 0 then (fst p, n * snd p) # linear_scale n e else linear_scale n e)"
    by (simp add: linear_scale_def)
  show ?case
  proof (cases "k = fst p")
    case True
    with notin sub have "coeff (linear_scale n e) k = 0"
      by (intro coeff_notin_keys) auto
    with True show ?thesis by (simp add: tail coeff_Cons)
  next
    case False
    with Cons.IH [OF d] show ?thesis by (simp add: tail coeff_Cons)
  qed
qed

lemma coeff_filtered:
  "coeff (filtered key_to_object pred e) k = (if pred (key_to_object k) then coeff e k else 0)"
  unfolding filtered_def
  by (induction e) (auto simp add: coeff_Nil coeff_Cons)

lemma distinct_filtered:
  "distinct (map fst e) \<Longrightarrow> distinct (map fst (filtered key_to_object pred e))"
  by (simp add: filtered_def distinct_map_filter)

lemma linear_eqI: "(\<And>k. coeff e1 k = coeff e2 k) \<Longrightarrow> linear_eq e1 e2"
  by (simp add: linear_eq_def)

lemma linear_eq_iff: "linear_eq e1 e2 \<longleftrightarrow> (\<forall>k. coeff e1 k = coeff e2 k)"
proof
  assume eq: "linear_eq e1 e2"
  show "\<forall>k. coeff e1 k = coeff e2 k"
  proof
    fix k
    show "coeff e1 k = coeff e2 k"
    proof (cases "k \<in> fst ` set e1 \<union> fst ` set e2")
      case True
      with eq show ?thesis by (auto simp add: linear_eq_def)
    next
      case False
      then show ?thesis by (simp add: coeff_notin_keys)
    qed
  qed
next
  assume "\<forall>k. coeff e1 k = coeff e2 k"
  then show "linear_eq e1 e2" by (simp add: linear_eq_def)
qed

lemma fold_add_concat:
  "fold f (concat xss) acc = fold (\<lambda>xs. fold f xs) xss acc"
  by (induction xss arbitrary: acc) simp_all

lemma coproduct_add_all: "coproduct A B = add_all (coproduct_entries A B) []"
  by (simp add: coproduct_def add_all_def coproduct_entries_def fold_add_concat fold_map comp_def)

lemma sum_coproduct_inner:
  "sum_list (map snd (filter (\<lambda>p. fst p = [a', b']) (map (\<lambda>pb. ([a, fst pb], ca * snd pb)) B)))
   = (if a = a' then ca * sum_list (map snd (filter (\<lambda>p. fst p = b') B)) else (0::int))"
proof (cases "a = a'")
  case True
  have "sum_list (map snd (filter (\<lambda>p. fst p = [a, b']) (map (\<lambda>pb. ([a, fst pb], ca * snd pb)) B)))
        = ca * sum_list (map snd (filter (\<lambda>p. fst p = b') B))"
    by (induction B) (simp_all add: algebra_simps)
  with True show ?thesis by simp
next
  case False
  then have "filter (\<lambda>p. fst p = [a', b']) (map (\<lambda>pb. ([a, fst pb], ca * snd pb)) B) = []"
    by (induction B) simp_all
  with False show ?thesis by simp
qed

lemma sum_coproduct_inner_other:
  "length key \<noteq> 2 \<Longrightarrow>
   filter (\<lambda>p. fst p = key) (map (\<lambda>pb. ([a, fst pb], ca * snd pb)) B) = []"
  by (induction B) auto

lemma sum_coproduct_entries:
  "sum_list (map snd (filter (\<lambda>p. fst p = [a', b']) (coproduct_entries A B)))
   = sum_list (map snd (filter (\<lambda>p. fst p = a') A))
     * sum_list (map snd (filter (\<lambda>p. fst p = b') B))"
proof (induction A)
  case Nil
  then show ?case by (simp add: coproduct_entries_def)
next
  case (Cons pa A)
  have split: "coproduct_entries (pa # A) B
      = map (\<lambda>pb. ([fst pa, fst pb], snd pa * snd pb)) B @ coproduct_entries A B"
    by (simp add: coproduct_entries_def)
  show ?case
    unfolding split filter_append map_append sum_list_append sum_coproduct_inner Cons.IH
    by (simp add: algebra_simps)
qed

lemma sum_coproduct_entries_other:
  "length key \<noteq> 2 \<Longrightarrow> filter (\<lambda>p. fst p = key) (coproduct_entries A B) = []"
  unfolding coproduct_entries_def
  by (induction A) (simp_all add: sum_coproduct_inner_other)

lemma coeff_coproduct_pair:
  "distinct (map fst A) \<Longrightarrow> distinct (map fst B) \<Longrightarrow>
   coeff (coproduct A B) [a, b] = coeff A a * coeff B b"
  by (simp add: coproduct_add_all coeff_add_all coeff_Nil sum_coproduct_entries total_eq_coeff)

lemma coeff_coproduct_other:
  "length key \<noteq> 2 \<Longrightarrow> coeff (coproduct A B) key = 0"
  by (simp add: coproduct_add_all coeff_add_all coeff_Nil sum_coproduct_entries_other)

lemma distinct_coproduct: "distinct (map fst (coproduct A B))"
  by (simp add: coproduct_add_all distinct_add_all)




section \<open>The coproduct of two expressions\<close>

text \<open>
  C3. The binary coproduct is bilinear. For well-formed expressions \<open>A\<close>, \<open>B\<close> and \<open>C\<close> and
  every integer \<open>n\<close>, \<open>coproduct (A + n * B) C\<close> equals
  \<open>coproduct A C + n * coproduct B C\<close> as an expression, and the same holds in the second
  argument.
\<close>

theorem coproduct_bilinear:
  assumes "wf_linear A" and "wf_linear B" and "wf_linear C"
  shows "linear_eq (coproduct (linear_plus A (linear_scale n B)) C)
                   (linear_plus (coproduct A C) (linear_scale n (coproduct B C)))
       \<and> linear_eq (coproduct C (linear_plus A (linear_scale n B)))
                   (linear_plus (coproduct C A) (linear_scale n (coproduct C B)))"
proof -
  from assms have dA: "distinct (map fst A)" and dB: "distinct (map fst B)"
    and dC: "distinct (map fst C)"
    by (simp_all add: wf_linear_def)
  let ?S = "linear_plus A (linear_scale n B)"
  have dS: "distinct (map fst ?S)"
    using dA by (rule distinct_linear_plus)
  have cS: "coeff ?S k = coeff A k + n * coeff B k" for k
    by (simp add: coeff_linear_plus coeff_linear_scale distinct_linear_scale dB)
  have right: "coeff (linear_plus (coproduct X Y) (linear_scale n (coproduct X' Y'))) key
      = coeff (coproduct X Y) key + n * coeff (coproduct X' Y') key" for X Y X' Y' :: "'a linear" and key
    by (simp add: coeff_linear_plus coeff_linear_scale distinct_linear_scale distinct_coproduct)
  have first: "coeff (coproduct ?S C) key
      = coeff (linear_plus (coproduct A C) (linear_scale n (coproduct B C))) key" for key
  proof (cases "length key = 2")
    case True
    then obtain a c where key: "key = [a, c]"
      by (auto simp add: length_Suc_conv numeral_2_eq_2)
    show ?thesis
      unfolding right key
      by (simp add: coeff_coproduct_pair dA dB dC dS cS algebra_simps)
  next
    case False
    then show ?thesis
      unfolding right by (simp add: coeff_coproduct_other)
  qed
  have second: "coeff (coproduct C ?S) key
      = coeff (linear_plus (coproduct C A) (linear_scale n (coproduct C B))) key" for key
  proof (cases "length key = 2")
    case True
    then obtain c a where key: "key = [c, a]"
      by (auto simp add: length_Suc_conv numeral_2_eq_2)
    show ?thesis
      unfolding right key
      by (simp add: coeff_coproduct_pair dA dB dC dS cS algebra_simps)
  next
    case False
    then show ?thesis
      unfolding right by (simp add: coeff_coproduct_other)
  qed
  from first second show ?thesis
    by (simp add: linear_eqI)
qed

theorem coproduct_bilinear_witness:
  "wf_linear [([1::nat], 1)] \<and> wf_linear [([2::nat], 1)] \<and> wf_linear [([3::nat], 1), ([4], 3)]
   \<and> linear_eq (coproduct (linear_plus [([1::nat], 1)] (linear_scale (- 1) [([2], 1)])) [([3], 1), ([4], 3)])
               [([[1], [3]], 1), ([[1], [4]], 3), ([[2], [3]], - 1), ([[2], [4]], - 3)]
   \<and> linear_eq (coproduct (linear_plus [([1::nat], 1)] (linear_scale (- 1) [([2], 1)])) [([3], 1), ([4], 3)])
               (linear_plus (coproduct [([1], 1)] [([3], 1), ([4], 3)])
                            (linear_scale (- 1) (coproduct [([2], 1)] [([3], 1), ([4], 3)])))"
proof -
  have a: "wf_linear [([1::nat], 1)]" and b: "wf_linear [([2::nat], 1)]"
    and c: "wf_linear [([3::nat], 1), ([4], 3)]"
    by (simp_all add: wf_linear_def)
  have v: "linear_eq (coproduct (linear_plus [([1::nat], 1)] (linear_scale (- 1) [([2], 1)])) [([3], 1), ([4], 3)])
               [([[1], [3]], 1), ([[1], [4]], 3), ([[2], [3]], - 1), ([[2], [4]], - 3)]"
    by code_simp
  from coproduct_bilinear [OF a b c, of "- 1"]
  have l: "linear_eq (coproduct (linear_plus [([1::nat], 1)] (linear_scale (- 1) [([2], 1)])) [([3], 1), ([4], 3)])
               (linear_plus (coproduct [([1], 1)] [([3], 1), ([4], 3)])
                            (linear_scale (- 1) (coproduct [([2], 1)] [([3], 1), ([4], 3)])))"
    by (rule conjunct1)
  from a b c v l show ?thesis by blast
qed

section \<open>Nil letters\<close>




section \<open>Filters and separation on Delta expressions\<close>

text \<open>
  C9. The two filters split an expression. Every entry of a well-formed \<open>e\<close> is kept by
  exactly one of \<^verbatim>\<open>terms_with_unique_muptiples\<close> and \<^verbatim>\<open>terms_with_nonunique_muptiples\<close>,
  with its coefficient, nothing else is in either, and the sum of the two results equals
  \<open>e\<close>.
\<close>

theorem unique_nonunique_partition:
  assumes "wf_linear e"
  shows "linear_eq (linear_plus (terms_with_unique_muptiples h e)
                                (terms_with_nonunique_muptiples h e)) e
       \<and> (\<forall>p \<in> set e. (p \<in> set (terms_with_unique_muptiples h e))
                        \<noteq> (p \<in> set (terms_with_nonunique_muptiples h e)))
       \<and> set (terms_with_unique_muptiples h e) \<union> set (terms_with_nonunique_muptiples h e) = set e"
proof -
  from assms have d: "distinct (map fst e)"
    by (simp add: wf_linear_def)
  let ?k2o = "DeltaExpr_key_to_object h"
  let ?unique = "\<lambda>term. adjacent_find (sorted_copy (Delta_less h) term) = []"
  have U: "terms_with_unique_muptiples h e = filtered ?k2o ?unique e"
    by (simp add: terms_with_unique_muptiples_def Let_def)
  have N: "terms_with_nonunique_muptiples h e = filtered ?k2o (\<lambda>term. \<not> ?unique term) e"
    by (simp add: terms_with_nonunique_muptiples_def Let_def)
  have "coeff (linear_plus (filtered ?k2o ?unique e) (filtered ?k2o (\<lambda>term. \<not> ?unique term) e)) k = coeff e k" for k
    by (simp add: coeff_linear_plus distinct_filtered d coeff_filtered)
  then have sum: "linear_eq (linear_plus (filtered ?k2o ?unique e) (filtered ?k2o (\<lambda>term. \<not> ?unique term) e)) e"
    by (rule linear_eqI)
  have one: "\<forall>p \<in> set e. (p \<in> set (filtered ?k2o ?unique e)) \<noteq> (p \<in> set (filtered ?k2o (\<lambda>term. \<not> ?unique term) e))"
    by (simp add: filtered_def)
  have all: "set (filtered ?k2o ?unique e) \<union> set (filtered ?k2o (\<lambda>term. \<not> ?unique term) e) = set e"
    by (auto simp add: filtered_def)
  from sum one all show ?thesis
    unfolding U N by simp
qed

theorem unique_nonunique_partition_witness:
  "wf_linear [([example_D 1 2, example_D 3 4], 2), ([example_D 1 2, example_D 3 4, example_D 1 2], - 1)]
   \<and> terms_with_unique_muptiples example_delta_h
        [([example_D 1 2, example_D 3 4], 2), ([example_D 1 2, example_D 3 4, example_D 1 2], - 1)]
       = [([example_D 1 2, example_D 3 4], 2)]
   \<and> terms_with_nonunique_muptiples example_delta_h
        [([example_D 1 2, example_D 3 4], 2), ([example_D 1 2, example_D 3 4, example_D 1 2], - 1)]
       = [([example_D 1 2, example_D 3 4, example_D 1 2], - 1)]
   \<and> linear_eq
        (linear_plus
          (terms_with_unique_muptiples example_delta_h
            [([example_D 1 2, example_D 3 4], 2), ([example_D 1 2, example_D 3 4, example_D 1 2], - 1)])
          (terms_with_nonunique_muptiples example_delta_h
            [([example_D 1 2, example_D 3 4], 2), ([example_D 1 2, example_D 3 4, example_D 1 2], - 1)]))
        [([example_D 1 2, example_D 3 4], 2), ([example_D 1 2, example_D 3 4, example_D 1 2], - 1)]"
proof -
  let ?e = "[([example_D 1 2, example_D 3 4], 2), ([example_D 1 2, example_D 3 4, example_D 1 2], - 1)]"
  have w: "wf_linear ?e"
    by code_simp
  have u: "terms_with_unique_muptiples example_delta_h ?e = [([example_D 1 2, example_D 3 4], 2)]"
    by code_simp
  have n: "terms_with_nonunique_muptiples example_delta_h ?e
       = [([example_D 1 2, example_D 3 4, example_D 1 2], - 1)]"
    by code_simp
  from unique_nonunique_partition [OF w, of example_delta_h]
  have s: "linear_eq (linear_plus (terms_with_unique_muptiples example_delta_h ?e)
                                  (terms_with_nonunique_muptiples example_delta_h ?e)) ?e"
    by (rule conjunct1)
  from w u n s show ?thesis by blast
qed




end
